theory Spec2Isabelle
  imports Main "HOL-Library.Word" "HOL-Library.Char_ord" "HOL-Library.List_Lexorder"
begin

section \<open>Data model of sloc.go\<close>

text \<open>
  A Go \<open>string\<close> is a sequence of bytes and so is an Isabelle \<open>string\<close> (a list of
  8-bit \<open>char\<close>s). A Go \<open>[]byte\<close> is a list of 8-bit words; \<open>bytes\<close> is the
  conversion \<open>[]byte(s)\<close>.

  Go's \<open>int\<close> is modelled by the unbounded \<open>int\<close>. In one call of \<open>Update\<close>
  every counter grows by at most one for each input byte, a slice holds fewer than
  \<open>2^63\<close> bytes and the cursors stay below the length of a marker, so what one scan
  adds never wraps; the sums over the files of a run are taken to stay in range as well.
\<close>

type_synonym byte = "8 word"

definition bytes :: "string \<Rightarrow> byte list" where
  "bytes str = map of_char str"

text \<open>
  Indexing a slice, \<open>xs[i]\<close>: Go panics with an index out of range where HOL's \<open>!\<close>
  is unspecified. \<open>None\<close> is the panic.
\<close>

definition index :: "'a list \<Rightarrow> int \<Rightarrow> 'a option" where
  "index xs i = (if 0 \<le> i \<and> i < int (length xs) then Some (xs ! nat i) else None)"

text \<open>\<open>type LResult struct\<close>, a row of the report.\<close>

record LResult =
  Name :: string
  FileCount :: int
  CodeLines :: int
  CommentLines :: int
  BlankLines :: int
  TotalLines :: int

text \<open>\<open>type Stats struct\<close>, the counters of one language.\<close>

record Stats =
  FileCount :: int
  TotalLines :: int
  CodeLines :: int
  BlankLines :: int
  CommentLines :: int

text \<open>\<open>type Commenter struct\<close>, the comment syntax of a language.\<close>

record Commenter =
  LineComment :: string
  StartComment :: string
  EndComment :: string
  Nesting :: bool

text \<open>
  The descriptors of the \<open>var\<close> block. \<open>"\000"\<close> is the one-byte string holding the
  byte 0. The line marker of \<open>mlComments\<close> is written with back quotes in the source,
  a raw string: it is the four characters backslash, 0, 0, 0.
\<close>

definition noComments :: Commenter where
  "noComments = \<lparr>LineComment = [CHR 0x00], StartComment = [CHR 0x00],
     EndComment = [CHR 0x00], Nesting = False\<rparr>"

definition xmlComments :: Commenter where
  "xmlComments = \<lparr>LineComment = [CHR 0x00], StartComment = ''<!--'',
     EndComment = ''-->'', Nesting = False\<rparr>"

definition cComments :: Commenter where
  "cComments = \<lparr>LineComment = ''//'', StartComment = ''/*'',
     EndComment = ''*/'', Nesting = False\<rparr>"

definition cssComments :: Commenter where
  "cssComments = \<lparr>LineComment = [CHR 0x00], StartComment = ''/*'',
     EndComment = ''*/'', Nesting = False\<rparr>"

definition shComments :: Commenter where
  "shComments = \<lparr>LineComment = ''#'', StartComment = [CHR 0x00],
     EndComment = [CHR 0x00], Nesting = False\<rparr>"

definition semiComments :: Commenter where
  "semiComments = \<lparr>LineComment = '';'', StartComment = [CHR 0x00],
     EndComment = [CHR 0x00], Nesting = False\<rparr>"

definition hsComments :: Commenter where
  "hsComments = \<lparr>LineComment = ''--'', StartComment = ''{-'',
     EndComment = ''-}'', Nesting = True\<rparr>"

definition mlComments :: Commenter where
  "mlComments = \<lparr>LineComment = [CHR 0x5C, CHR ''0'', CHR ''0'', CHR ''0''],
     StartComment = ''(*'', EndComment = ''*)'', Nesting = False\<rparr>"

definition sqlComments :: Commenter where
  "sqlComments = \<lparr>LineComment = ''--'', StartComment = ''/*'',
     EndComment = ''*/'', Nesting = False\<rparr>"

definition luaComments :: Commenter where
  "luaComments = \<lparr>LineComment = ''--'', StartComment = ''--[['',
     EndComment = '']]'', Nesting = False\<rparr>"

definition pyComments :: Commenter where
  "pyComments = \<lparr>LineComment = ''#'', StartComment = [CHR 0x22, CHR 0x22, CHR 0x22],
     EndComment = [CHR 0x22, CHR 0x22, CHR 0x22], Nesting = False\<rparr>"

definition matlabComments :: Commenter where
  "matlabComments = \<lparr>LineComment = ''%'', StartComment = ''%{'',
     EndComment = ''%}'', Nesting = False\<rparr>"

definition erlangComments :: Commenter where
  "erlangComments = \<lparr>LineComment = ''%'', StartComment = [CHR 0x00],
     EndComment = [CHR 0x00], Nesting = False\<rparr>"

definition rubyComments :: Commenter where
  "rubyComments = \<lparr>LineComment = ''#'', StartComment = ''=begin'',
     EndComment = ''=end'', Nesting = False\<rparr>"

definition coffeeComments :: Commenter where
  "coffeeComments = \<lparr>LineComment = ''#'', StartComment = ''###'',
     EndComment = ''###'', Nesting = False\<rparr>"

definition perlComments :: Commenter where
  "perlComments = \<lparr>LineComment = ''#'', StartComment = [CHR 0x00],
     EndComment = [CHR 0x00], Nesting = False\<rparr>"

section \<open>\<open>Language.Update\<close>\<close>

text \<open>
  The local variables of \<open>Update\<close> together with the \<open>Stats\<close> that the pointer
  \<open>s\<close> refers to. The slices \<open>lc\<close>, \<open>sc\<close> and \<open>ec\<close> never change: they are read
  from the descriptor where they are used.

  \<open>Language\<close> embeds \<open>Namer\<close>, \<open>Matcher\<close> and \<open>Commenter\<close>; \<open>Update\<close> reads only
  the four promoted fields of the \<open>Commenter\<close>, which stands for the receiver here.
\<close>

record scan =
  inComment :: int
  inLComment :: bool
  blank :: bool
  lp :: int
  sp :: int
  ep :: int
  stats :: Stats

text \<open>
  Lines 125 to 133. \<open>&&\<close> evaluates its right operand only when the left one holds,
  so \<open>lc[lp]\<close> is read only while \<open>inComment == 0\<close>.
\<close>

definition line_matcher :: "Commenter \<Rightarrow> byte \<Rightarrow> scan \<Rightarrow> scan option" where
  "line_matcher l b v =
     (let lc = bytes (LineComment l) in
      if inComment v = 0 then
        (case index lc (lp v) of
           None \<Rightarrow> None
         | Some x \<Rightarrow>
             if b = x then
               (let v1 = v\<lparr>lp := lp v + 1\<rparr> in
                if lp v1 = int (length lc)
                then Some (v1\<lparr>inLComment := True, lp := 0\<rparr>)
                else Some v1)
             else Some (v\<lparr>lp := 0\<rparr>))
      else Some (v\<lparr>lp := 0\<rparr>))"

text \<open>Lines 134 to 145.\<close>

definition start_matcher :: "Commenter \<Rightarrow> byte \<Rightarrow> scan \<Rightarrow> scan option" where
  "start_matcher l b v =
     (let sc = bytes (StartComment l) in
      if \<not> inLComment v then
        (case index sc (sp v) of
           None \<Rightarrow> None
         | Some x \<Rightarrow>
             if b = x then
               (let v1 = v\<lparr>sp := sp v + 1\<rparr> in
                if sp v1 = int (length sc)
                then
                  (let v2 = v1\<lparr>inComment := inComment v1 + 1\<rparr>;
                       v3 = (if inComment v2 > 1 \<and> \<not> Nesting l
                             then v2\<lparr>inComment := 1\<rparr> else v2)
                   in Some (v3\<lparr>sp := 0\<rparr>))
                else Some v1)
             else Some (v\<lparr>sp := 0\<rparr>))
      else Some (v\<lparr>sp := 0\<rparr>))"

text \<open>Lines 146 to 156.\<close>

definition end_matcher :: "Commenter \<Rightarrow> byte \<Rightarrow> scan \<Rightarrow> scan option" where
  "end_matcher l b v =
     (let ec = bytes (EndComment l) in
      if \<not> inLComment v \<and> inComment v > 0 then
        (case index ec (ep v) of
           None \<Rightarrow> None
         | Some x \<Rightarrow>
             if b = x then
               (let v1 = v\<lparr>ep := ep v + 1\<rparr> in
                if ep v1 = int (length ec)
                then
                  (let v2 = (if inComment v1 > 0
                             then v1\<lparr>inComment := inComment v1 - 1\<rparr> else v1)
                   in Some (v2\<lparr>ep := 0\<rparr>))
                else Some v1)
             else Some (v\<lparr>ep := 0\<rparr>))
      else Some (v\<lparr>ep := 0\<rparr>))"

text \<open>Lines 158 to 160: space, tab, newline and carriage return keep a line blank.\<close>

definition mark_blank :: "byte \<Rightarrow> scan \<Rightarrow> scan" where
  "mark_blank b v =
     (if b \<noteq> 32 \<and> b \<noteq> 9 \<and> b \<noteq> 10 \<and> b \<noteq> 13 then v\<lparr>blank := False\<rparr> else v)"

text \<open>Lines 165 to 177: a newline byte finalizes the line.\<close>

definition finalize :: "byte \<Rightarrow> scan \<Rightarrow> scan" where
  "finalize b v =
     (if b = 10 then
        (let st1 = (stats v)\<lparr>TotalLines := TotalLines (stats v) + 1\<rparr>;
             v1 =
               (if inComment v > 0 \<or> inLComment v
                then v\<lparr>inLComment := False,
                       stats := st1\<lparr>CommentLines := CommentLines st1 + 1\<rparr>\<rparr>
                else if blank v
                then v\<lparr>stats := st1\<lparr>BlankLines := BlankLines st1 + 1\<rparr>\<rparr>
                else v\<lparr>stats := st1\<lparr>CodeLines := CodeLines st1 + 1\<rparr>\<rparr>)
         in v1\<lparr>blank := True\<rparr>)
      else v)"

text \<open>The body of the loop, for one byte.\<close>

definition step :: "Commenter \<Rightarrow> byte \<Rightarrow> scan \<Rightarrow> scan option" where
  "step l b v =
     (case line_matcher l b v of
        None \<Rightarrow> None
      | Some v1 \<Rightarrow>
          (case start_matcher l b v1 of
             None \<Rightarrow> None
           | Some v2 \<Rightarrow>
               (case end_matcher l b v2 of
                  None \<Rightarrow> None
                | Some v3 \<Rightarrow> Some (finalize b (mark_blank b v3)))))"

text \<open>\<open>for _, b := range c\<close>; a panic ends the scan.\<close>

fun scan_loop :: "Commenter \<Rightarrow> byte list \<Rightarrow> scan \<Rightarrow> scan option" where
  "scan_loop l [] v = Some v"
| "scan_loop l (b # c) v =
     (case step l b v of None \<Rightarrow> None | Some v' \<Rightarrow> scan_loop l c v')"

text \<open>Lines 116 to 122: the locals at the head of the loop.\<close>

definition start_scan :: "Stats \<Rightarrow> scan" where
  "start_scan st = \<lparr>inComment = 0, inLComment = False, blank = True,
     lp = 0, sp = 0, ep = 0, stats = st\<rparr>"

definition Update :: "Commenter \<Rightarrow> byte list \<Rightarrow> Stats \<Rightarrow> Stats option" where
  "Update l c st =
     map_option stats (scan_loop l c (start_scan (st\<lparr>FileCount := FileCount st + 1\<rparr>)))"

text \<open>\<open>&Stats{}\<close>, the zero value that \<open>handleFileLang\<close> starts a language with.\<close>

definition zero_Stats :: Stats where
  "zero_Stats = \<lparr>FileCount = 0, TotalLines = 0, CodeLines = 0, BlankLines = 0,
     CommentLines = 0\<rparr>"

section \<open>\<open>LData.Less\<close>\<close>

text \<open>
  \<open>LData\<close> is \<open>[]LResult\<close>. Go compares strings byte by byte, a proper prefix being
  the smaller: the lexicographic order on \<open>char list\<close>.
\<close>

definition Less :: "LResult list \<Rightarrow> int \<Rightarrow> int \<Rightarrow> bool option" where
  "Less d i j =
     (case index d i of
        None \<Rightarrow> None
      | Some di \<Rightarrow>
          (case index d j of
             None \<Rightarrow> None
           | Some dj \<Rightarrow>
               if LResult.CodeLines di = LResult.CodeLines dj
               then Some (Name di > Name dj)
               else Some (LResult.CodeLines di > LResult.CodeLines dj)))"

section \<open>Well-formed descriptors and scan states\<close>

text \<open>
  The markers of a descriptor are not empty, and each cursor indexes its marker.
\<close>

definition markers_ok :: "Commenter \<Rightarrow> bool" where
  "markers_ok l = (LineComment l \<noteq> [] \<and> StartComment l \<noteq> [] \<and> EndComment l \<noteq> [])"

definition cursors_ok :: "Commenter \<Rightarrow> scan \<Rightarrow> bool" where
  "cursors_ok l v =
     (0 \<le> lp v \<and> lp v < int (length (bytes (LineComment l))) \<and>
      0 \<le> sp v \<and> sp v < int (length (bytes (StartComment l))) \<and>
      0 \<le> ep v \<and> ep v < int (length (bytes (EndComment l))))"

text \<open>What the three categories have in excess of the total.\<close>

definition balance :: "Stats \<Rightarrow> int" where
  "balance st = CodeLines st + CommentLines st + BlankLines st - TotalLines st"

text \<open>
  The block depth after each byte of the input, in order: what an observer of
  \<open>inComment\<close> at the end of every iteration sees.
\<close>

fun depth_trace :: "Commenter \<Rightarrow> byte list \<Rightarrow> scan \<Rightarrow> int list option" where
  "depth_trace l [] v = Some []"
| "depth_trace l (b # c) v =
     (case step l b v of
        None \<Rightarrow> None
      | Some v' \<Rightarrow> map_option ((#) (inComment v')) (depth_trace l c v'))"

text \<open>
  The field-wise sum of two \<open>Stats\<close>: what merging the counts of one scan into the
  counts of a language amounts to.
\<close>

definition add_Stats :: "Stats \<Rightarrow> Stats \<Rightarrow> Stats" where
  "add_Stats a d = \<lparr>FileCount = FileCount a + FileCount d,
     TotalLines = TotalLines a + TotalLines d, CodeLines = CodeLines a + CodeLines d,
     BlankLines = BlankLines a + BlankLines d,
     CommentLines = CommentLines a + CommentLines d\<rparr>"

section \<open>One step of the scan\<close>

lemma length_bytes [simp]: "length (bytes str) = length str"
  by (simp add: bytes_def)

lemma index_Some [simp]: "0 \<le> i \<Longrightarrow> i < int (length xs) \<Longrightarrow> index xs i = Some (xs ! nat i)"
  by (simp add: index_def)

lemma line_matcher_frame:
  "line_matcher l b v = Some v' \<Longrightarrow>
     inComment v' = inComment v \<and> blank v' = blank v \<and> sp v' = sp v \<and> ep v' = ep v \<and>
     stats v' = stats v \<and> (inLComment v \<longrightarrow> inLComment v')"
  by (auto simp: line_matcher_def Let_def split: if_splits option.splits)

lemma start_matcher_frame:
  "start_matcher l b v = Some v' \<Longrightarrow>
     inLComment v' = inLComment v \<and> blank v' = blank v \<and> lp v' = lp v \<and> ep v' = ep v \<and>
     stats v' = stats v"
  by (auto simp: start_matcher_def Let_def split: if_splits option.splits)

lemma end_matcher_frame:
  "end_matcher l b v = Some v' \<Longrightarrow>
     inLComment v' = inLComment v \<and> blank v' = blank v \<and> lp v' = lp v \<and> sp v' = sp v \<and>
     stats v' = stats v"
  by (auto simp: end_matcher_def Let_def split: if_splits option.splits)

lemma line_matcher_total:
  "0 \<le> lp v \<Longrightarrow> lp v < int (length (LineComment l)) \<Longrightarrow>
   \<exists>v'. line_matcher l b v = Some v' \<and> 0 \<le> lp v' \<and> lp v' < int (length (LineComment l))"
  by (auto simp: line_matcher_def Let_def)

lemma start_matcher_total:
  "0 \<le> sp v \<Longrightarrow> sp v < int (length (StartComment l)) \<Longrightarrow>
   \<exists>v'. start_matcher l b v = Some v' \<and> 0 \<le> sp v' \<and> sp v' < int (length (StartComment l))"
  by (auto simp: start_matcher_def Let_def)

lemma end_matcher_total:
  "0 \<le> ep v \<Longrightarrow> ep v < int (length (EndComment l)) \<Longrightarrow>
   \<exists>v'. end_matcher l b v = Some v' \<and> 0 \<le> ep v' \<and> ep v' < int (length (EndComment l))"
  by (auto simp: end_matcher_def Let_def)

lemma finalize_cursors [simp]:
  "lp (finalize b v) = lp v" "sp (finalize b v) = sp v" "ep (finalize b v) = ep v"
  "inComment (finalize b v) = inComment v"
  by (simp_all add: finalize_def Let_def)

lemma mark_blank_fields [simp]:
  "lp (mark_blank b v) = lp v" "sp (mark_blank b v) = sp v" "ep (mark_blank b v) = ep v"
  "inComment (mark_blank b v) = inComment v" "inLComment (mark_blank b v) = inLComment v"
  "stats (mark_blank b v) = stats v"
  by (simp_all add: mark_blank_def)

lemma step_total:
  assumes "cursors_ok l v"
  shows "\<exists>v'. step l b v = Some v' \<and> cursors_ok l v'"
proof -
  from assms obtain v1 where 1: "line_matcher l b v = Some v1"
    and c1: "0 \<le> lp v1" "lp v1 < int (length (LineComment l))"
    using line_matcher_total [of v l b] by (auto simp: cursors_ok_def)
  from assms line_matcher_frame [OF 1]
  obtain v2 where 2: "start_matcher l b v1 = Some v2"
    and c2: "0 \<le> sp v2" "sp v2 < int (length (StartComment l))"
    using start_matcher_total [of v1 l b] by (auto simp: cursors_ok_def)
  from assms line_matcher_frame [OF 1] start_matcher_frame [OF 2]
  obtain v3 where 3: "end_matcher l b v2 = Some v3"
    and c3: "0 \<le> ep v3" "ep v3 < int (length (EndComment l))"
    using end_matcher_total [of v2 l b] by (auto simp: cursors_ok_def)
  have "step l b v = Some (finalize b (mark_blank b v3))"
    by (simp add: step_def 1 2 3)
  moreover have "cursors_ok l (finalize b (mark_blank b v3))"
    using c1 c2 c3 start_matcher_frame [OF 2] end_matcher_frame [OF 3]
    by (simp add: cursors_ok_def)
  ultimately show ?thesis by blast
qed

lemma step_SomeE:
  assumes "step l b v = Some v'"
  obtains v1 v2 v3 where "line_matcher l b v = Some v1" "start_matcher l b v1 = Some v2"
    "end_matcher l b v2 = Some v3" "v' = finalize b (mark_blank b v3)"
  using assms by (auto simp: step_def split: option.splits)

lemma scan_loop_append:
  "scan_loop l (p @ r) v = (case scan_loop l p v of None \<Rightarrow> None | Some v' \<Rightarrow> scan_loop l r v')"
  by (induction p arbitrary: v) (auto split: option.splits)

lemma scan_loop_total:
  "cursors_ok l v \<Longrightarrow> \<exists>v'. scan_loop l c v = Some v' \<and> cursors_ok l v'"
proof (induction c arbitrary: v)
  case Nil
  then show ?case by simp
next
  case (Cons b c)
  from step_total [OF Cons.prems, of b] obtain v1 where "step l b v = Some v1" "cursors_ok l v1"
    by blast
  with Cons.IH [of v1] show ?case by simp
qed

lemma start_scan_ok: "markers_ok l \<Longrightarrow> cursors_ok l (start_scan st)"
  by (simp add: markers_ok_def cursors_ok_def start_scan_def)

lemma finalize_other: "b \<noteq> 10 \<Longrightarrow> finalize b v = v"
  by (simp add: finalize_def)

lemma finalize_TotalLines:
  "TotalLines (stats (finalize b v)) = TotalLines (stats v) + (if b = 10 then 1 else 0)"
  by (simp add: finalize_def Let_def)

lemma finalize_FileCount:
  "FileCount (stats (finalize b v)) = FileCount (stats v)"
  by (simp add: finalize_def Let_def)

lemma finalize_balance:
  "balance (stats (finalize b v)) = balance (stats v)"
  by (simp add: finalize_def Let_def balance_def)

lemma step_stats_frame:
  assumes "step l b v = Some v'"
  obtains w where "v' = finalize b w" "stats w = stats v"
proof -
  from assms obtain v1 v2 v3 where m: "line_matcher l b v = Some v1"
    "start_matcher l b v1 = Some v2" "end_matcher l b v2 = Some v3"
    and v': "v' = finalize b (mark_blank b v3)"
    by (rule step_SomeE)
  have "stats (mark_blank b v3) = stats v"
    using line_matcher_frame [OF m(1)] start_matcher_frame [OF m(2)]
      end_matcher_frame [OF m(3)] by simp
  with v' show ?thesis by (rule that)
qed

lemma step_stats_other: "b \<noteq> 10 \<Longrightarrow> step l b v = Some v' \<Longrightarrow> stats v' = stats v"
  by (erule step_stats_frame) (simp add: finalize_other)

lemma step_TotalLines:
  "step l b v = Some v' \<Longrightarrow>
   TotalLines (stats v') = TotalLines (stats v) + (if b = 10 then 1 else 0)"
  by (erule step_stats_frame) (simp add: finalize_TotalLines)

lemma step_FileCount: "step l b v = Some v' \<Longrightarrow> FileCount (stats v') = FileCount (stats v)"
  by (erule step_stats_frame) (simp add: finalize_FileCount)

lemma step_balance: "step l b v = Some v' \<Longrightarrow> balance (stats v') = balance (stats v)"
  by (erule step_stats_frame) (simp add: finalize_balance)

lemma scan_loop_balance:
  "scan_loop l c v = Some v' \<Longrightarrow> balance (stats v') = balance (stats v)"
proof (induction c arbitrary: v)
  case Nil
  then show ?case by simp
next
  case (Cons b c)
  then obtain v1 where "step l b v = Some v1" "scan_loop l c v1 = Some v'"
    by (auto split: option.splits)
  with Cons.IH [of v1] step_balance [of l b v v1] show ?case by simp
qed

lemma scan_loop_TotalLines:
  "scan_loop l c v = Some v' \<Longrightarrow>
   TotalLines (stats v') = TotalLines (stats v) + int (count_list c 10)"
proof (induction c arbitrary: v)
  case Nil
  then show ?case by simp
next
  case (Cons b c)
  then obtain v1 where "step l b v = Some v1" "scan_loop l c v1 = Some v'"
    by (auto split: option.splits)
  with Cons.IH [of v1] step_TotalLines [of l b v v1] show ?case by simp
qed

lemma scan_loop_no_newline:
  "10 \<notin> set t \<Longrightarrow> scan_loop l t v = Some v' \<Longrightarrow> stats v' = stats v"
proof (induction t arbitrary: v)
  case Nil
  then show ?case by simp
next
  case (Cons b t)
  then obtain v1 where "step l b v = Some v1" "scan_loop l t v1 = Some v'"
    by (auto split: option.splits)
  with Cons.IH [of v1] Cons.prems(1) step_stats_other [of b l v v1] show ?case by simp
qed

lemma Update_total:
  "markers_ok l \<Longrightarrow> \<exists>st'. Update l c st = Some st'"
  using scan_loop_total [OF start_scan_ok, of l c] by (fastforce simp: Update_def)

lemma Update_append_no_newline:
  assumes "markers_ok l" "10 \<notin> set t"
  shows "Update l (c @ t) st = Update l c st"
proof -
  let ?v0 = "start_scan (st\<lparr>FileCount := FileCount st + 1\<rparr>)"
  from scan_loop_total [OF start_scan_ok [OF assms(1)], of c "st\<lparr>FileCount := FileCount st + 1\<rparr>"]
  obtain v1 where 1: "scan_loop l c ?v0 = Some v1" and ok: "cursors_ok l v1" by blast
  from scan_loop_total [OF ok, of t] obtain v2 where 2: "scan_loop l t v1 = Some v2" by blast
  from scan_loop_no_newline [OF assms(2) 2] have "stats v2 = stats v1" .
  then show ?thesis by (simp add: Update_def scan_loop_append 1 2)
qed

lemma Update_TotalLines:
  "Update l c st = Some st' \<Longrightarrow> TotalLines st' = TotalLines st + int (count_list c 10)"
  by (auto simp: Update_def start_scan_def dest: scan_loop_TotalLines)

lemma line_matcher_lp:
  "line_matcher l b v = Some v' \<Longrightarrow>
   lp v' = (if inComment v = 0 \<and> index (bytes (LineComment l)) (lp v) = Some b \<and>
               lp v + 1 \<noteq> int (length (bytes (LineComment l)))
            then lp v + 1 else 0)"
  by (auto simp: line_matcher_def Let_def split: if_splits option.splits)

lemma line_matcher_inLComment:
  "line_matcher l b v = Some v' \<Longrightarrow>
   inLComment v' = (inLComment v \<or> (inComment v = 0 \<and>
      index (bytes (LineComment l)) (lp v) = Some b \<and>
      lp v + 1 = int (length (bytes (LineComment l)))))"
  by (auto simp: line_matcher_def Let_def split: if_splits option.splits)

lemma start_matcher_mismatch:
  "start_matcher l b v = Some v' \<Longrightarrow> index (bytes (StartComment l)) (sp v) \<noteq> Some b \<Longrightarrow>
   sp v' = 0 \<and> inComment v' = inComment v"
  by (auto simp: start_matcher_def Let_def split: if_splits option.splits)

lemma end_matcher_mismatch:
  "end_matcher l b v = Some v' \<Longrightarrow> index (bytes (EndComment l)) (ep v) \<noteq> Some b \<Longrightarrow>
   ep v' = 0 \<and> inComment v' = inComment v"
  by (auto simp: end_matcher_def Let_def split: if_splits option.splits)

lemma start_matcher_complete:
  assumes "\<not> inLComment v" and "index (bytes (StartComment l)) (sp v) = Some b"
    and "sp v + 1 = int (length (bytes (StartComment l)))"
  shows "start_matcher l b v =
    Some (v\<lparr>inComment := (if Nesting l \<or> inComment v + 1 \<le> 1 then inComment v + 1 else 1),
            sp := 0\<rparr>)"
  using assms by (simp add: start_matcher_def Let_def)

lemma step_lp:
  assumes "step l b v = Some v'"
  shows "lp v' = (if inComment v = 0 \<and> index (bytes (LineComment l)) (lp v) = Some b \<and>
               lp v + 1 \<noteq> int (length (bytes (LineComment l)))
            then lp v + 1 else 0)"
proof -
  from assms obtain v1 v2 v3 where m: "line_matcher l b v = Some v1"
    "start_matcher l b v1 = Some v2" "end_matcher l b v2 = Some v3"
    and v': "v' = finalize b (mark_blank b v3)"
    by (rule step_SomeE)
  have "lp v' = lp v1"
    using start_matcher_frame [OF m(2)] end_matcher_frame [OF m(3)] by (simp add: v')
  with line_matcher_lp [OF m(1)] show ?thesis by simp
qed

lemma step_sp_mismatch:
  assumes "step l b v = Some v'" and "index (bytes (StartComment l)) (sp v) \<noteq> Some b"
  shows "sp v' = 0"
proof -
  from assms(1) obtain v1 v2 v3 where m: "line_matcher l b v = Some v1"
    "start_matcher l b v1 = Some v2" "end_matcher l b v2 = Some v3"
    and v': "v' = finalize b (mark_blank b v3)"
    by (rule step_SomeE)
  from line_matcher_frame [OF m(1)] assms(2)
  have "index (bytes (StartComment l)) (sp v1) \<noteq> Some b" by simp
  from start_matcher_mismatch [OF m(2) this] end_matcher_frame [OF m(3)]
  show ?thesis by (simp add: v')
qed

lemma step_ep_mismatch:
  assumes "step l b v = Some v'" and "index (bytes (EndComment l)) (ep v) \<noteq> Some b"
  shows "ep v' = 0"
proof -
  from assms(1) obtain v1 v2 v3 where m: "line_matcher l b v = Some v1"
    "start_matcher l b v1 = Some v2" "end_matcher l b v2 = Some v3"
    and v': "v' = finalize b (mark_blank b v3)"
    by (rule step_SomeE)
  from line_matcher_frame [OF m(1)] start_matcher_frame [OF m(2)] assms(2)
  have "index (bytes (EndComment l)) (ep v2) \<noteq> Some b" by simp
  from end_matcher_mismatch [OF m(3) this]
  show ?thesis by (simp add: v')
qed

lemma step_no_line_comment_in_block:
  assumes "step l b v = Some v'" and "inComment v \<noteq> 0" and "inLComment v'"
  shows "inLComment v"
proof -
  from assms(1) obtain v1 v2 v3 where m: "line_matcher l b v = Some v1"
    "start_matcher l b v1 = Some v2" "end_matcher l b v2 = Some v3"
    and v': "v' = finalize b (mark_blank b v3)"
    by (rule step_SomeE)
  from assms(3) have "inLComment v3"
    by (auto simp: v' finalize_def Let_def split: if_splits)
  with start_matcher_frame [OF m(2)] end_matcher_frame [OF m(3)]
    line_matcher_inLComment [OF m(1)] assms(2)
  show ?thesis by simp
qed

lemma finalize_comment:
  "inComment w > 0 \<or> inLComment w \<Longrightarrow>
   finalize 10 w = w\<lparr>inLComment := False, blank := True,
     stats := (stats w)\<lparr>TotalLines := TotalLines (stats w) + 1,
       CommentLines := CommentLines (stats w) + 1\<rparr>\<rparr>"
  by (simp add: finalize_def Let_def)

lemma step_keeps_inLComment:
  assumes "step l b v = Some v'" and "b \<noteq> 10" and "inLComment v"
  shows "inLComment v'"
proof -
  from assms(1) obtain v1 v2 v3 where m: "line_matcher l b v = Some v1"
    "start_matcher l b v1 = Some v2" "end_matcher l b v2 = Some v3"
    and v': "v' = finalize b (mark_blank b v3)"
    by (rule step_SomeE)
  from line_matcher_frame [OF m(1)] start_matcher_frame [OF m(2)] end_matcher_frame [OF m(3)]
    assms(3)
  have "inLComment v3" by simp
  with assms(2) show ?thesis by (simp add: v' finalize_other)
qed

lemma step_newline_in_line_comment:
  assumes "step l 10 v = Some v'" and "inLComment v"
  shows "stats v' = (stats v)\<lparr>TotalLines := TotalLines (stats v) + 1,
       CommentLines := CommentLines (stats v) + 1\<rparr> \<and> \<not> inLComment v'"
proof -
  from assms(1) obtain v1 v2 v3 where m: "line_matcher l 10 v = Some v1"
    "start_matcher l 10 v1 = Some v2" "end_matcher l 10 v2 = Some v3"
    and v': "v' = finalize 10 (mark_blank 10 v3)"
    by (rule step_SomeE)
  from line_matcher_frame [OF m(1)] start_matcher_frame [OF m(2)] end_matcher_frame [OF m(3)]
    assms(2)
  have "inLComment (mark_blank 10 v3)" "stats (mark_blank 10 v3) = stats v" by simp_all
  then show ?thesis by (simp add: v' finalize_comment)
qed

lemma scan_loop_keeps_inLComment:
  "10 \<notin> set ys \<Longrightarrow> scan_loop l ys v = Some v' \<Longrightarrow> inLComment v \<Longrightarrow> inLComment v'"
proof (induction ys arbitrary: v)
  case Nil
  then show ?case by simp
next
  case (Cons b ys)
  then obtain v1 where 1: "step l b v = Some v1" "scan_loop l ys v1 = Some v'"
    by (auto split: option.splits)
  from Cons.prems have "b \<noteq> 10" by auto
  from step_keeps_inLComment [OF 1(1) this Cons.prems(3)] Cons.IH [of v1] Cons.prems(1) 1(2)
  show ?case by simp
qed

lemma line_comment_line:
  assumes "cursors_ok l v" and "inLComment v" and "10 \<notin> set ys"
  shows "\<exists>v'. scan_loop l (ys @ [10]) v = Some v' \<and> \<not> inLComment v' \<and>
     stats v' = (stats v)\<lparr>TotalLines := TotalLines (stats v) + 1,
       CommentLines := CommentLines (stats v) + 1\<rparr>"
proof -
  from scan_loop_total [OF assms(1), of ys]
  obtain v1 where 1: "scan_loop l ys v = Some v1" and ok: "cursors_ok l v1" by blast
  from step_total [OF ok, of 10] obtain v2 where 2: "step l 10 v1 = Some v2" by blast
  have "inLComment v1" using assms(3) 1 assms(2) by (rule scan_loop_keeps_inLComment)
  from step_newline_in_line_comment [OF 2 this] scan_loop_no_newline [OF assms(3) 1]
  have "\<not> inLComment v2 \<and> stats v2 = (stats v)\<lparr>TotalLines := TotalLines (stats v) + 1,
       CommentLines := CommentLines (stats v) + 1\<rparr>" by simp
  moreover have "scan_loop l (ys @ [10]) v = Some v2"
    by (simp add: scan_loop_append 1 2)
  ultimately show ?thesis by blast
qed

lemma line_matcher_stats_update:
  "line_matcher l b (v\<lparr>stats := s\<rparr>) = map_option (\<lambda>w. w\<lparr>stats := s\<rparr>) (line_matcher l b v)"
  by (simp add: line_matcher_def Let_def split: option.splits)

lemma start_matcher_stats_update:
  "start_matcher l b (v\<lparr>stats := s\<rparr>) = map_option (\<lambda>w. w\<lparr>stats := s\<rparr>) (start_matcher l b v)"
  by (simp add: start_matcher_def Let_def split: option.splits)

lemma end_matcher_stats_update:
  "end_matcher l b (v\<lparr>stats := s\<rparr>) = map_option (\<lambda>w. w\<lparr>stats := s\<rparr>) (end_matcher l b v)"
  by (simp add: end_matcher_def Let_def split: option.splits)

lemma mark_blank_stats_update:
  "mark_blank b (v\<lparr>stats := s\<rparr>) = (mark_blank b v)\<lparr>stats := s\<rparr>"
  by (simp add: mark_blank_def)

lemma finalize_add_Stats:
  "finalize b (v\<lparr>stats := add_Stats a (stats v)\<rparr>) =
   (finalize b v)\<lparr>stats := add_Stats a (stats (finalize b v))\<rparr>"
  by (simp add: finalize_def Let_def add_Stats_def)

lemma step_add_Stats:
  "step l b (v\<lparr>stats := add_Stats a (stats v)\<rparr>) =
   map_option (\<lambda>w. w\<lparr>stats := add_Stats a (stats w)\<rparr>) (step l b v)"
proof (cases "step l b v")
  case None
  then show ?thesis
    by (auto simp: step_def line_matcher_stats_update start_matcher_stats_update
        end_matcher_stats_update split: option.splits)
next
  case (Some v')
  then obtain v1 v2 v3 where m: "line_matcher l b v = Some v1"
    "start_matcher l b v1 = Some v2" "end_matcher l b v2 = Some v3"
    and v': "v' = finalize b (mark_blank b v3)"
    by (rule step_SomeE)
  have s: "stats v3 = stats v"
    using line_matcher_frame [OF m(1)] start_matcher_frame [OF m(2)]
      end_matcher_frame [OF m(3)] by simp
  have "step l b (v\<lparr>stats := add_Stats a (stats v)\<rparr>) =
      Some (finalize b ((mark_blank b v3)\<lparr>stats := add_Stats a (stats v)\<rparr>))"
    by (simp add: step_def line_matcher_stats_update start_matcher_stats_update
        end_matcher_stats_update mark_blank_stats_update m)
  also have "finalize b ((mark_blank b v3)\<lparr>stats := add_Stats a (stats v)\<rparr>) =
      v'\<lparr>stats := add_Stats a (stats v')\<rparr>"
    using finalize_add_Stats [where b = b and v = "mark_blank b v3" and a = a] by (simp add: s v')
  finally show ?thesis by (simp add: Some)
qed

lemma scan_loop_add_Stats:
  "scan_loop l c (v\<lparr>stats := add_Stats a (stats v)\<rparr>) =
   map_option (\<lambda>w. w\<lparr>stats := add_Stats a (stats w)\<rparr>) (scan_loop l c v)"
proof (induction c arbitrary: v)
  case Nil
  then show ?case by simp
next
  case (Cons b c)
  show ?case
  proof (cases "step l b v")
    case None
    then show ?thesis by (simp add: step_add_Stats)
  next
    case (Some v1)
    with Cons.IH [of v1] show ?thesis by (simp add: step_add_Stats)
  qed
qed

lemma Update_add_Stats:
  "Update l c st = map_option (add_Stats st) (Update l c zero_Stats)"
proof -
  let ?v = "start_scan (zero_Stats\<lparr>FileCount := FileCount zero_Stats + 1\<rparr>)"
  have "start_scan (st\<lparr>FileCount := FileCount st + 1\<rparr>) = ?v\<lparr>stats := add_Stats st (stats ?v)\<rparr>"
    by (simp add: start_scan_def add_Stats_def zero_Stats_def)
  then show ?thesis
    by (simp add: Update_def scan_loop_add_Stats option.map_comp comp_def)
qed

lemma index_not_in_set: "x \<notin> set xs \<Longrightarrow> index xs i \<noteq> Some x"
  by (auto simp: index_def)

lemma step_newline_depth:
  assumes "step l 10 v = Some v'" and "10 \<notin> set (bytes (StartComment l))"
    and "10 \<notin> set (bytes (EndComment l))"
  shows "inComment v' = inComment v"
proof -
  from assms(1) obtain v1 v2 v3 where m: "line_matcher l 10 v = Some v1"
    "start_matcher l 10 v1 = Some v2" "end_matcher l 10 v2 = Some v3"
    and v': "v' = finalize 10 (mark_blank 10 v3)"
    by (rule step_SomeE)
  from start_matcher_mismatch [OF m(2) index_not_in_set [OF assms(2)]]
    end_matcher_mismatch [OF m(3) index_not_in_set [OF assms(3)]]
    line_matcher_frame [OF m(1)]
  show ?thesis by (simp add: v')
qed

lemma step_in_block:
  assumes "step l b v = Some v'" and "0 < inComment v'"
  shows "stats v' = (if b = 10
    then (stats v)\<lparr>TotalLines := TotalLines (stats v) + 1,
       CommentLines := CommentLines (stats v) + 1\<rparr>
    else stats v)"
proof -
  from assms(1) obtain w where w: "v' = finalize b w" "stats w = stats v"
    by (rule step_stats_frame)
  from assms(2) have "0 < inComment w" by (simp add: w)
  then show ?thesis by (simp add: w finalize_comment finalize_other)
qed

lemma scan_in_open_block:
  assumes "cursors_ok l v"
  shows "\<exists>ds v'. depth_trace l c v = Some ds \<and> scan_loop l c v = Some v' \<and>
     ((\<forall>d\<in>set ds. 0 < d) \<longrightarrow>
        stats v' = (stats v)\<lparr>TotalLines := TotalLines (stats v) + int (count_list c 10),
          CommentLines := CommentLines (stats v) + int (count_list c 10)\<rparr>)"
  using assms
proof (induction c arbitrary: v)
  case Nil
  then show ?case by simp
next
  case (Cons b c)
  from step_total [OF Cons.prems, of b]
  obtain v1 where 1: "step l b v = Some v1" and ok: "cursors_ok l v1" by blast
  from Cons.IH [OF ok] obtain ds v' where ih: "depth_trace l c v1 = Some ds"
    "scan_loop l c v1 = Some v'"
    "(\<forall>d\<in>set ds. 0 < d) \<longrightarrow>
        stats v' = (stats v1)\<lparr>TotalLines := TotalLines (stats v1) + int (count_list c 10),
          CommentLines := CommentLines (stats v1) + int (count_list c 10)\<rparr>"
    by blast
  have "depth_trace l (b # c) v = Some (inComment v1 # ds)" by (simp add: 1 ih(1))
  moreover have "scan_loop l (b # c) v = Some v'" by (simp add: 1 ih(2))
  moreover have "stats v' = (stats v)\<lparr>TotalLines := TotalLines (stats v) + int (count_list (b # c) 10),
          CommentLines := CommentLines (stats v) + int (count_list (b # c) 10)\<rparr>"
    if "\<forall>d\<in>set (inComment v1 # ds). 0 < d"
  proof -
    from that have "0 < inComment v1" "\<forall>d\<in>set ds. 0 < d" by simp_all
    with ih(3) step_in_block [OF 1] show ?thesis by simp
  qed
  ultimately show ?case by blast
qed

lemma bytes_sentinel [simp]: "bytes [CHR 0x00] = [0]"
  by (simp add: bytes_def)

lemma line_matcher_sentinel:
  "LineComment l = [CHR 0x00] \<Longrightarrow> b \<noteq> 0 \<Longrightarrow> lp v = 0 \<Longrightarrow>
   line_matcher l b v = Some (v\<lparr>lp := 0\<rparr>)"
  by (simp add: line_matcher_def index_def Let_def)

lemma start_matcher_sentinel:
  "StartComment l = [CHR 0x00] \<Longrightarrow> b \<noteq> 0 \<Longrightarrow> sp v = 0 \<Longrightarrow>
   start_matcher l b v = Some (v\<lparr>sp := 0\<rparr>)"
  by (simp add: start_matcher_def index_def Let_def)

lemma end_matcher_sentinel:
  "EndComment l = [CHR 0x00] \<Longrightarrow> b \<noteq> 0 \<Longrightarrow> ep v = 0 \<Longrightarrow>
   end_matcher l b v = Some (v\<lparr>ep := 0\<rparr>)"
  by (simp add: end_matcher_def index_def Let_def)

lemma end_matcher_outside_block:
  "end_matcher l b v = Some v' \<Longrightarrow> inComment v \<le> 0 \<Longrightarrow> inComment v' = inComment v"
  by (auto simp: end_matcher_def Let_def split: if_splits option.splits)

lemma step_start_sentinel:
  assumes "step l b v = Some v'" and "StartComment l = [CHR 0x00]" and "b \<noteq> 0"
    and "inComment v = 0" and "sp v = 0"
  shows "inComment v' = 0 \<and> sp v' = 0"
proof -
  from assms(1) obtain v1 v2 v3 where m: "line_matcher l b v = Some v1"
    "start_matcher l b v1 = Some v2" "end_matcher l b v2 = Some v3"
    and v': "v' = finalize b (mark_blank b v3)"
    by (rule step_SomeE)
  from line_matcher_frame [OF m(1)] assms(4,5) have 1: "inComment v1 = 0" "sp v1 = 0"
    by simp_all
  have "index (bytes (StartComment l)) (sp v1) \<noteq> Some b"
    using assms(2,3) 1 by (simp add: index_def)
  from start_matcher_mismatch [OF m(2) this] 1 have 2: "inComment v2 = 0" "sp v2 = 0"
    by simp_all
  from end_matcher_outside_block [OF m(3)] end_matcher_frame [OF m(3)] 2
  show ?thesis by (simp add: v')
qed

lemma step_line_sentinel:
  assumes "step l b v = Some v'" and "LineComment l = [CHR 0x00]" and "b \<noteq> 0"
    and "\<not> inLComment v" and "lp v = 0"
  shows "\<not> inLComment v' \<and> lp v' = 0"
proof -
  from assms(1) obtain v1 v2 v3 where m: "line_matcher l b v = Some v1"
    "start_matcher l b v1 = Some v2" "end_matcher l b v2 = Some v3"
    and v': "v' = finalize b (mark_blank b v3)"
    by (rule step_SomeE)
  have i: "index (bytes (LineComment l)) (lp v) \<noteq> Some b"
    using assms(2,3,5) by (simp add: index_def)
  from line_matcher_inLComment [OF m(1)] i assms(4) have "\<not> inLComment v1" by simp
  with start_matcher_frame [OF m(2)] end_matcher_frame [OF m(3)]
  have "\<not> inLComment v3" by simp
  then have "\<not> inLComment v'"
    by (simp add: v' finalize_def Let_def)
  moreover from step_lp [OF assms(1)] i have "lp v' = 0" by simp
  ultimately show ?thesis by simp
qed

lemma scan_start_sentinel:
  assumes "StartComment l = [CHR 0x00]"
  shows "cursors_ok l v \<Longrightarrow> 0 \<notin> set c \<Longrightarrow> inComment v = 0 \<Longrightarrow> sp v = 0 \<Longrightarrow>
    depth_trace l c v = Some (replicate (length c) 0)"
proof (induction c arbitrary: v)
  case Nil
  then show ?case by simp
next
  case (Cons b c)
  from step_total [OF Cons.prems(1), of b]
  obtain v1 where 1: "step l b v = Some v1" and ok: "cursors_ok l v1" by blast
  from Cons.prems(2) have b: "b \<noteq> 0" and c: "0 \<notin> set c" by auto
  from step_start_sentinel [OF 1 assms b Cons.prems(3,4)]
  have z: "inComment v1 = 0" "sp v1 = 0" by simp_all
  from Cons.IH [OF ok c z] show ?case by (simp add: 1 z)
qed

lemma scan_line_sentinel:
  assumes "LineComment l = [CHR 0x00]"
  shows "cursors_ok l v \<Longrightarrow> 0 \<notin> set c \<Longrightarrow> \<not> inLComment v \<Longrightarrow> lp v = 0 \<Longrightarrow>
    \<exists>w. scan_loop l c v = Some w \<and> \<not> inLComment w \<and> lp w = 0"
proof (induction c arbitrary: v)
  case Nil
  then show ?case by simp
next
  case (Cons b c)
  from step_total [OF Cons.prems(1), of b]
  obtain v1 where 1: "step l b v = Some v1" and ok: "cursors_ok l v1" by blast
  from Cons.prems(2) have b: "b \<noteq> 0" and c: "0 \<notin> set c" by auto
  from step_line_sentinel [OF 1 assms b Cons.prems(3,4)]
  have z: "\<not> inLComment v1" "lp v1 = 0" by simp_all
  from Cons.IH [OF ok c z] show ?case by (simp add: 1)
qed

section \<open>The claims\<close>

text \<open>
  C1. The counts produced by one call of \<open>Update\<close> satisfy
  code + comment + blank = total: every finalized line goes to exactly one category.
  The counts of a call are the differences between the \<open>Stats\<close> after and before
  it. The call returns for every descriptor whose markers are not empty, and whenever it
  returns the equation holds.
\<close>

theorem Update_partition:
  "(markers_ok l \<longrightarrow> (\<exists>st'. Update l c st = Some st')) \<and>
   (\<forall>st'. Update l c st = Some st' \<longrightarrow>
      (CodeLines st' - CodeLines st) + (CommentLines st' - CommentLines st)
        + (BlankLines st' - BlankLines st) = TotalLines st' - TotalLines st)"
proof (intro conjI impI allI)
  assume "markers_ok l"
  then show "\<exists>st'. Update l c st = Some st'" by (rule Update_total)
next
  fix st'
  assume "Update l c st = Some st'"
  then obtain v' where v: "scan_loop l c (start_scan (st\<lparr>FileCount := FileCount st + 1\<rparr>)) = Some v'"
    and st': "st' = stats v'"
    by (auto simp: Update_def)
  from scan_loop_balance [OF v] have "balance st' = balance st"
    by (simp add: st' start_scan_def balance_def)
  then show "(CodeLines st' - CodeLines st) + (CommentLines st' - CommentLines st)
        + (BlankLines st' - BlankLines st) = TotalLines st' - TotalLines st"
    by (simp add: balance_def)
qed

theorem Update_partition_witness:
  "markers_ok cComments \<and>
   Update cComments (bytes ''x = 1 // set x'' @ [10, 10] @ bytes ''y'' @ [10]) zero_Stats =
     Some \<lparr>FileCount = 1, TotalLines = 3, CodeLines = 1, BlankLines = 1, CommentLines = 1\<rparr> \<and>
   (1 - 0) + (1 - 0) + (1 - 0) = (3::int) - 0"
proof -
  have u: "Update cComments (bytes ''x = 1 // set x'' @ [10, 10] @ bytes ''y'' @ [10]) zero_Stats =
     Some \<lparr>FileCount = 1, TotalLines = 3, CodeLines = 1, BlankLines = 1, CommentLines = 1\<rparr>"
    by code_simp
  have m: "markers_ok cComments" by (simp add: markers_ok_def cComments_def)
  from Update_partition [of cComments "bytes ''x = 1 // set x'' @ [10, 10] @ bytes ''y'' @ [10]" zero_Stats]
  show ?thesis using u m by (simp add: zero_Stats_def)
qed

text \<open>
  C3. The line counters change only at a newline byte. A byte other than the newline
  leaves all of \<open>Stats\<close> as it is; for a descriptor with non-empty markers
  \<open>Update\<close> returns, the total grows by the number of newline bytes of the input,
  and bytes after the last newline (a partial last line) change no counter; an input of
  zero bytes gives total, code, comment and blank 0 (and one file).
\<close>

theorem lines_end_at_newline:
  "(\<forall>b v v'. b \<noteq> 10 \<longrightarrow> step l b v = Some v' \<longrightarrow> stats v' = stats v) \<and>
   (markers_ok l \<longrightarrow>
      (\<exists>st'. Update l c st = Some st' \<and>
         TotalLines st' = TotalLines st + int (count_list c 10)) \<and>
      (\<forall>t. 10 \<notin> set t \<longrightarrow> Update l (c @ t) st = Update l c st)) \<and>
   Update l [] zero_Stats =
     Some \<lparr>FileCount = 1, TotalLines = 0, CodeLines = 0, BlankLines = 0, CommentLines = 0\<rparr>"
proof (intro conjI impI allI)
  fix b v v'
  assume "b \<noteq> 10" "step l b v = Some v'"
  then show "stats v' = stats v" by (rule step_stats_other)
next
  assume m: "markers_ok l"
  from Update_total [OF m, of c st] obtain st' where u: "Update l c st = Some st'" by blast
  with Update_TotalLines [OF u]
  show "\<exists>st'. Update l c st = Some st' \<and> TotalLines st' = TotalLines st + int (count_list c 10)"
    by blast
next
  fix t :: "byte list"
  assume "markers_ok l" "10 \<notin> set t"
  then show "Update l (c @ t) st = Update l c st" by (rule Update_append_no_newline)
next
  show "Update l [] zero_Stats =
     Some \<lparr>FileCount = 1, TotalLines = 0, CodeLines = 0, BlankLines = 0, CommentLines = 0\<rparr>"
    by (simp add: Update_def start_scan_def zero_Stats_def)
qed

theorem lines_end_at_newline_witness:
  "markers_ok shComments \<and> 10 \<notin> set (bytes ''echo'') \<and> (35::byte) \<noteq> 10 \<and>
   step shComments 35 (start_scan zero_Stats) = Some ((start_scan zero_Stats)\<lparr>inLComment := True, blank := False\<rparr>) \<and>
   stats ((start_scan zero_Stats)\<lparr>inLComment := True, blank := False\<rparr>) = stats (start_scan zero_Stats) \<and>
   Update shComments (bytes ''# a'' @ [10, 10] @ bytes ''ls'' @ [10]) zero_Stats =
     Some \<lparr>FileCount = 1, TotalLines = 3, CodeLines = 1, BlankLines = 1, CommentLines = 1\<rparr> \<and>
   count_list (bytes ''# a'' @ [10, 10] @ bytes ''ls'' @ [10]) 10 = 3 \<and>
   Update shComments ((bytes ''# a'' @ [10, 10] @ bytes ''ls'' @ [10]) @ bytes ''echo'') zero_Stats =
     Some \<lparr>FileCount = 1, TotalLines = 3, CodeLines = 1, BlankLines = 1, CommentLines = 1\<rparr>"
proof -
  let ?c = "bytes ''# a'' @ [10, 10] @ bytes ''ls'' @ [10]"
  have m: "markers_ok shComments" by (simp add: markers_ok_def shComments_def)
  have t: "10 \<notin> set (bytes ''echo'')" by (simp add: bytes_def)
  have s: "step shComments 35 (start_scan zero_Stats) =
      Some ((start_scan zero_Stats)\<lparr>inLComment := True, blank := False\<rparr>)"
    by code_simp
  have u: "Update shComments ?c zero_Stats =
     Some \<lparr>FileCount = 1, TotalLines = 3, CodeLines = 1, BlankLines = 1, CommentLines = 1\<rparr>"
    by code_simp
  have n: "count_list ?c 10 = 3" by (simp add: bytes_def)
  from lines_end_at_newline [of shComments ?c zero_Stats] m t have "Update shComments (?c @ bytes ''echo'') zero_Stats = Update shComments ?c zero_Stats"
    by blast
  with m t s u n show ?thesis by simp
qed

text \<open>
  C10. For a descriptor whose three markers are not empty, the scan reaches the head of
  every iteration (it has not panicked on the bytes before), and there each of the
  cursors \<open>lp\<close>, \<open>sp\<close>, \<open>ep\<close> is at least 0 and below the length of its
  marker, so that \<open>lc[lp]\<close>, \<open>sc[sp]\<close> and \<open>ec[ep]\<close> are in bounds. The state
  at the head of iteration \<open>n\<close> is the one after the first \<open>n\<close> bytes; \<open>n\<close>
  equal to the length of the input is the state the loop ends in.
\<close>

theorem cursors_in_bounds:
  assumes "LineComment l \<noteq> []" and "StartComment l \<noteq> []" and "EndComment l \<noteq> []"
  shows "\<forall>n \<le> length c. \<exists>v. scan_loop l (take n c) (start_scan st) = Some v \<and>
      0 \<le> lp v \<and> lp v < int (length (bytes (LineComment l))) \<and>
      0 \<le> sp v \<and> sp v < int (length (bytes (StartComment l))) \<and>
      0 \<le> ep v \<and> ep v < int (length (bytes (EndComment l))) \<and>
      index (bytes (LineComment l)) (lp v) \<noteq> None \<and>
      index (bytes (StartComment l)) (sp v) \<noteq> None \<and>
      index (bytes (EndComment l)) (ep v) \<noteq> None"
proof (intro allI impI)
  fix n
  from assms have "cursors_ok l (start_scan st)"
    by (simp add: start_scan_ok markers_ok_def)
  from scan_loop_total [OF this, of "take n c"]
  obtain v where "scan_loop l (take n c) (start_scan st) = Some v" "cursors_ok l v" by blast
  then show "\<exists>v. scan_loop l (take n c) (start_scan st) = Some v \<and>
      0 \<le> lp v \<and> lp v < int (length (bytes (LineComment l))) \<and>
      0 \<le> sp v \<and> sp v < int (length (bytes (StartComment l))) \<and>
      0 \<le> ep v \<and> ep v < int (length (bytes (EndComment l))) \<and>
      index (bytes (LineComment l)) (lp v) \<noteq> None \<and>
      index (bytes (StartComment l)) (sp v) \<noteq> None \<and>
      index (bytes (EndComment l)) (ep v) \<noteq> None"
    by (auto simp: cursors_ok_def)
qed

theorem cursors_in_bounds_witness:
  "LineComment rubyComments \<noteq> [] \<and> StartComment rubyComments \<noteq> [] \<and>
   EndComment rubyComments \<noteq> [] \<and> (3::nat) \<le> length (bytes ''=be x'') \<and>
   scan_loop rubyComments (take 3 (bytes ''=be x'')) (start_scan zero_Stats) =
     Some ((start_scan zero_Stats)\<lparr>blank := False, sp := 3\<rparr>) \<and>
   index (bytes (StartComment rubyComments)) 3 = Some 103"
proof -
  have a: "LineComment rubyComments \<noteq> []" "StartComment rubyComments \<noteq> []"
    "EndComment rubyComments \<noteq> []"
    by (simp_all add: rubyComments_def)
  have n: "(3::nat) \<le> length (bytes ''=be x'')" by simp
  have e: "scan_loop rubyComments (take 3 (bytes ''=be x'')) (start_scan zero_Stats) =
     Some ((start_scan zero_Stats)\<lparr>blank := False, sp := 3\<rparr>)"
    by code_simp
  have i: "index (bytes (StartComment rubyComments)) 3 = Some 103"
    by code_simp
  from cursors_in_bounds [OF a, of "bytes ''=be x''" zero_Stats, rule_format, OF n]
  show ?thesis using a n e i by simp
qed

text \<open>
  C5, as amended. The line-comment matcher is active exactly while the scan is not inside
  a block comment (\<open>inComment = 0\<close>), whether or not it is already inside a line
  comment. A byte processed at block depth 0 that equals the marker byte at the cursor
  advances the cursor (back to 0 when that completes the marker); a byte processed at a
  block depth other than 0 leaves the cursor at 0 and starts no line comment.
\<close>

theorem line_matcher_active_at_depth_zero:
  "(\<forall>v'. step l b v = Some v' \<longrightarrow> inComment v \<noteq> 0 \<longrightarrow>
      lp v' = 0 \<and> (inLComment v' \<longrightarrow> inLComment v)) \<and>
   (\<forall>v'. step l b v = Some v' \<longrightarrow> inComment v = 0 \<longrightarrow>
      index (bytes (LineComment l)) (lp v) = Some b \<longrightarrow>
      lp v' = (if lp v + 1 = int (length (bytes (LineComment l))) then 0 else lp v + 1))"
  using step_lp [of l b v] step_no_line_comment_in_block [of l b v] by auto

theorem line_matcher_active_at_depth_zero_witness:
  "step cComments 47 \<lparr>inComment = 1, inLComment = False, blank = False, lp = 0, sp = 0,
       ep = 0, stats = zero_Stats\<rparr> =
     Some \<lparr>inComment = 1, inLComment = False, blank = False, lp = 0, sp = 1, ep = 0,
       stats = zero_Stats\<rparr> \<and>
   step cComments 47 \<lparr>inComment = 0, inLComment = True, blank = False, lp = 0, sp = 0,
       ep = 0, stats = zero_Stats\<rparr> =
     Some \<lparr>inComment = 0, inLComment = True, blank = False, lp = 1, sp = 0, ep = 0,
       stats = zero_Stats\<rparr> \<and>
   index (bytes (LineComment cComments)) 0 = Some 47 \<and>
   (0::int) + 1 \<noteq> int (length (bytes (LineComment cComments)))"
proof -
  let ?a = "\<lparr>inComment = 1, inLComment = False, blank = False, lp = 0, sp = 0,
       ep = 0, stats = zero_Stats\<rparr>"
  let ?b = "\<lparr>inComment = 0, inLComment = True, blank = False, lp = 0, sp = 0,
       ep = 0, stats = zero_Stats\<rparr>"
  have a: "step cComments 47 ?a = Some \<lparr>inComment = 1, inLComment = False, blank = False,
      lp = 0, sp = 1, ep = 0, stats = zero_Stats\<rparr>"
    by code_simp
  have b: "step cComments 47 ?b = Some \<lparr>inComment = 0, inLComment = True, blank = False,
      lp = 1, sp = 0, ep = 0, stats = zero_Stats\<rparr>"
    by code_simp
  have i: "index (bytes (LineComment cComments)) 0 = Some 47" by code_simp
  have n: "(0::int) + 1 \<noteq> int (length (bytes (LineComment cComments)))"
    by (simp add: cComments_def)
  from line_matcher_active_at_depth_zero [of cComments 47 ?a] a
  have 1: "lp \<lparr>inComment = 1, inLComment = False, blank = False,
      lp = 0, sp = 1, ep = 0, stats = zero_Stats\<rparr> = 0" by simp
  from line_matcher_active_at_depth_zero [of cComments 47 ?b] b i n
  have 2: "lp \<lparr>inComment = 0, inLComment = True, blank = False,
      lp = 1, sp = 0, ep = 0, stats = zero_Stats\<rparr> = 0 + 1" by simp
  from 1 2 a b i n show ?thesis by simp
qed

text \<open>
  C5 as it is written fails in both directions for the C-style descriptor. After
  \<open>//\<close> the scan is inside a line comment and a further \<open>/\<close> advances the line
  cursor to 1; after \<open>/* \<close> the scan is not inside a line comment and a \<open>/\<close>, the
  first byte of the line marker, leaves the line cursor at 0.
\<close>

theorem line_matcher_guard_counterexample:
  "scan_loop cComments (bytes ''//'') (start_scan zero_Stats) =
     Some \<lparr>inComment = 0, inLComment = True, blank = False, lp = 0, sp = 0, ep = 0,
       stats = zero_Stats\<rparr> \<and>
   scan_loop cComments (bytes ''///'') (start_scan zero_Stats) =
     Some \<lparr>inComment = 0, inLComment = True, blank = False, lp = 1, sp = 0, ep = 0,
       stats = zero_Stats\<rparr> \<and>
   scan_loop cComments (bytes ''/* '') (start_scan zero_Stats) =
     Some \<lparr>inComment = 1, inLComment = False, blank = False, lp = 0, sp = 0, ep = 0,
       stats = zero_Stats\<rparr> \<and>
   scan_loop cComments (bytes ''/* /'') (start_scan zero_Stats) =
     Some \<lparr>inComment = 1, inLComment = False, blank = False, lp = 0, sp = 1, ep = 0,
       stats = zero_Stats\<rparr>"
  by code_simp

text \<open>
  C4. In each of the three matchers a byte that differs from the marker byte at the
  cursor sends the cursor to 0, also when the byte is the first byte of the marker: it is
  not tried again at an earlier position. So a marker that occurs in the input can stay
  unmatched: with the line marker \<open>ab\<close> the line \<open>aab\<close> is code and the line \<open>ab\<close>
  is comment, the cursor being 0 and not 1 after \<open>aa\<close>; with the CSS descriptor
  \<open>//* x\<close> is code and \<open>/* x\<close> is comment.
\<close>

theorem mismatch_resets_cursor:
  "(\<forall>b v v'. step l b v = Some v' \<longrightarrow>
      (index (bytes (LineComment l)) (lp v) \<noteq> Some b \<longrightarrow> lp v' = 0) \<and>
      (index (bytes (StartComment l)) (sp v) \<noteq> Some b \<longrightarrow> sp v' = 0) \<and>
      (index (bytes (EndComment l)) (ep v) \<noteq> Some b \<longrightarrow> ep v' = 0)) \<and>
   scan_loop \<lparr>LineComment = ''ab'', StartComment = [CHR 0x00], EndComment = [CHR 0x00],
       Nesting = False\<rparr> (bytes ''aa'') (start_scan zero_Stats) =
     Some \<lparr>inComment = 0, inLComment = False, blank = False, lp = 0, sp = 0, ep = 0,
       stats = zero_Stats\<rparr> \<and>
   Update \<lparr>LineComment = ''ab'', StartComment = [CHR 0x00], EndComment = [CHR 0x00],
       Nesting = False\<rparr> (bytes ''aab'' @ [10]) zero_Stats =
     Some \<lparr>FileCount = 1, TotalLines = 1, CodeLines = 1, BlankLines = 0, CommentLines = 0\<rparr> \<and>
   Update \<lparr>LineComment = ''ab'', StartComment = [CHR 0x00], EndComment = [CHR 0x00],
       Nesting = False\<rparr> (bytes ''ab'' @ [10]) zero_Stats =
     Some \<lparr>FileCount = 1, TotalLines = 1, CodeLines = 0, BlankLines = 0, CommentLines = 1\<rparr> \<and>
   Update cssComments (bytes ''//* x'' @ [10]) zero_Stats =
     Some \<lparr>FileCount = 1, TotalLines = 1, CodeLines = 1, BlankLines = 0, CommentLines = 0\<rparr> \<and>
   Update cssComments (bytes ''/* x'' @ [10]) zero_Stats =
     Some \<lparr>FileCount = 1, TotalLines = 1, CodeLines = 0, BlankLines = 0, CommentLines = 1\<rparr>"
proof (intro conjI allI impI)
  fix b v v'
  assume "step l b v = Some v'" "index (bytes (LineComment l)) (lp v) \<noteq> Some b"
  then show "lp v' = 0" by (simp add: step_lp)
next
  fix b v v'
  assume "step l b v = Some v'" "index (bytes (StartComment l)) (sp v) \<noteq> Some b"
  then show "sp v' = 0" by (rule step_sp_mismatch)
next
  fix b v v'
  assume "step l b v = Some v'" "index (bytes (EndComment l)) (ep v) \<noteq> Some b"
  then show "ep v' = 0" by (rule step_ep_mismatch)
qed code_simp+

theorem mismatch_resets_cursor_witness:
  "step cssComments 47 \<lparr>inComment = 0, inLComment = False, blank = False, lp = 0, sp = 1,
       ep = 0, stats = zero_Stats\<rparr> =
     Some \<lparr>inComment = 0, inLComment = False, blank = False, lp = 0, sp = 0, ep = 0,
       stats = zero_Stats\<rparr> \<and>
   index (bytes (LineComment cssComments)) 0 = Some 0 \<and>
   index (bytes (StartComment cssComments)) 1 = Some 42 \<and>
   index (bytes (EndComment cssComments)) 0 = Some 42 \<and>
   index (bytes (StartComment cssComments)) 0 = Some 47"
proof -
  let ?a = "\<lparr>inComment = 0, inLComment = False, blank = False, lp = 0, sp = 1,
       ep = 0, stats = zero_Stats\<rparr>"
  let ?b = "\<lparr>inComment = 0, inLComment = False, blank = False, lp = 0, sp = 0,
       ep = 0, stats = zero_Stats\<rparr>"
  have s: "step cssComments 47 ?a = Some ?b" by code_simp
  have i: "index (bytes (LineComment cssComments)) 0 = Some 0"
    "index (bytes (StartComment cssComments)) 1 = Some 42"
    "index (bytes (EndComment cssComments)) 0 = Some 42"
    "index (bytes (StartComment cssComments)) 0 = Some 47"
    by code_simp+
  from mismatch_resets_cursor [of cssComments, THEN conjunct1, rule_format, OF s]
  have "lp ?b = 0 \<and> sp ?b = 0 \<and> ep ?b = 0" using i by simp
  with s i show ?thesis by simp
qed

text \<open>
  C2. A line on which a line-comment marker has been completed is counted as one comment
  line and not as a code line, whatever came before the marker on that line. At the
  newline the comment state is tested first: a state inside a block or a line comment
  adds one to total and to comment and to nothing else, whether or not the line is blank.
  Once \<open>inLComment\<close> is set it stays set up to the newline, so from any state of the
  scan in which the marker has been completed (code bytes before it have cleared
  \<open>blank\<close>) the rest of the line and its newline add exactly one comment line. The
  line \<open>int x = 1; // note\<close> of the claim gives one comment line and no code line for
  the C-style descriptor.
\<close>

theorem trailing_line_comment_counts_as_comment:
  "(\<forall>w. inComment w > 0 \<or> inLComment w \<longrightarrow>
      stats (finalize 10 w) = (stats w)\<lparr>TotalLines := TotalLines (stats w) + 1,
        CommentLines := CommentLines (stats w) + 1\<rparr>) \<and>
   (\<forall>v ys. cursors_ok l v \<longrightarrow> inLComment v \<longrightarrow> 10 \<notin> set ys \<longrightarrow>
      (\<exists>v'. scan_loop l (ys @ [10]) v = Some v' \<and>
         TotalLines (stats v') = TotalLines (stats v) + 1 \<and>
         CommentLines (stats v') = CommentLines (stats v) + 1 \<and>
         CodeLines (stats v') = CodeLines (stats v) \<and>
         BlankLines (stats v') = BlankLines (stats v))) \<and>
   scan_loop cComments (bytes ''int x = 1; //'') (start_scan (zero_Stats\<lparr>FileCount := 1\<rparr>)) =
     Some \<lparr>inComment = 0, inLComment = True, blank = False, lp = 0, sp = 0, ep = 0,
       stats = zero_Stats\<lparr>FileCount := 1\<rparr>\<rparr> \<and>
   Update cComments (bytes ''int x = 1; // note'' @ [10]) zero_Stats =
     Some \<lparr>FileCount = 1, TotalLines = 1, CodeLines = 0, BlankLines = 0, CommentLines = 1\<rparr>"
proof (intro conjI allI impI)
  fix w :: scan
  assume "inComment w > 0 \<or> inLComment w"
  then show "stats (finalize 10 w) = (stats w)\<lparr>TotalLines := TotalLines (stats w) + 1,
        CommentLines := CommentLines (stats w) + 1\<rparr>"
    by (simp add: finalize_comment)
next
  fix v :: scan and ys :: "byte list"
  assume "cursors_ok l v" "inLComment v" "10 \<notin> set ys"
  from line_comment_line [OF this]
  show "\<exists>v'. scan_loop l (ys @ [10]) v = Some v' \<and>
         TotalLines (stats v') = TotalLines (stats v) + 1 \<and>
         CommentLines (stats v') = CommentLines (stats v) + 1 \<and>
         CodeLines (stats v') = CodeLines (stats v) \<and>
         BlankLines (stats v') = BlankLines (stats v)"
    by auto
qed code_simp+

theorem trailing_line_comment_counts_as_comment_witness:
  "cursors_ok cComments \<lparr>inComment = 0, inLComment = True, blank = False, lp = 0, sp = 0,
       ep = 0, stats = zero_Stats\<rparr> \<and>
   10 \<notin> set (bytes '' note'') \<and>
   scan_loop cComments (bytes '' note'' @ [10])
       \<lparr>inComment = 0, inLComment = True, blank = False, lp = 0, sp = 0, ep = 0,
         stats = zero_Stats\<rparr> =
     Some \<lparr>inComment = 0, inLComment = False, blank = True, lp = 0, sp = 0, ep = 0,
       stats = \<lparr>FileCount = 0, TotalLines = 1, CodeLines = 0, BlankLines = 0,
         CommentLines = 1\<rparr>\<rparr>"
proof -
  let ?v = "\<lparr>inComment = 0, inLComment = True, blank = False, lp = 0, sp = 0,
       ep = 0, stats = zero_Stats\<rparr>"
  have ok: "cursors_ok cComments ?v" by (simp add: cursors_ok_def cComments_def)
  have n: "10 \<notin> set (bytes '' note'')" by (simp add: bytes_def)
  have e: "scan_loop cComments (bytes '' note'' @ [10]) ?v =
     Some \<lparr>inComment = 0, inLComment = False, blank = True, lp = 0, sp = 0, ep = 0,
       stats = \<lparr>FileCount = 0, TotalLines = 1, CodeLines = 0, BlankLines = 0,
         CommentLines = 1\<rparr>\<rparr>"
    by code_simp
  from trailing_line_comment_counts_as_comment [of cComments, THEN conjunct2, THEN conjunct1,
    rule_format, OF ok _ n]
  have "\<exists>v'. scan_loop cComments (bytes '' note'' @ [10]) ?v = Some v' \<and>
      CommentLines (stats v') = CommentLines (stats ?v) + 1"
    by auto
  with ok n e show ?thesis by simp
qed

text \<open>
  C7. A byte that completes \<open>StartComment\<close> while the start matcher is active adds one
  to the block depth, and without nesting a depth above 1 is set back to 1. On the input
  of the claim, the C-style markers with nesting give the depths 0, 1, 2, 1, 0 (the
  comment closes at the second \<open>*/\<close>); without nesting they give 0, 1, 0 (the comment
  closes at the first \<open>*/\<close>). In both cases the line \<open>code\<close> is counted as code; the
  first line is code as well, since no comment is open at its newline.
\<close>

theorem block_start_depth:
  "(\<forall>b v. \<not> inLComment v \<longrightarrow> index (bytes (StartComment l)) (sp v) = Some b \<longrightarrow>
      sp v + 1 = int (length (bytes (StartComment l))) \<longrightarrow>
      start_matcher l b v =
        Some (v\<lparr>inComment := (if Nesting l \<or> inComment v + 1 \<le> 1
                                then inComment v + 1 else 1), sp := 0\<rparr>)) \<and>
   depth_trace (cComments\<lparr>Nesting := True\<rparr>)
       (bytes ''/* a /* b */ c */'' @ [10] @ bytes ''code'' @ [10]) (start_scan zero_Stats) =
     Some [0, 1, 1, 1, 1, 1, 2, 2, 2, 2, 2, 1, 1, 1, 1, 1, 0, 0, 0, 0, 0, 0, 0] \<and>
   depth_trace cComments
       (bytes ''/* a /* b */ c */'' @ [10] @ bytes ''code'' @ [10]) (start_scan zero_Stats) =
     Some [0, 1, 1, 1, 1, 1, 1, 1, 1, 1, 1, 0, 0, 0, 0, 0, 0, 0, 0, 0, 0, 0, 0] \<and>
   Update cComments (bytes ''/* a /* b */ c */'' @ [10]) zero_Stats =
     Some \<lparr>FileCount = 1, TotalLines = 1, CodeLines = 1, BlankLines = 0, CommentLines = 0\<rparr> \<and>
   Update cComments (bytes ''/* a /* b */ c */'' @ [10] @ bytes ''code'' @ [10]) zero_Stats =
     Some \<lparr>FileCount = 1, TotalLines = 2, CodeLines = 2, BlankLines = 0, CommentLines = 0\<rparr> \<and>
   Update (cComments\<lparr>Nesting := True\<rparr>)
       (bytes ''/* a /* b */ c */'' @ [10] @ bytes ''code'' @ [10]) zero_Stats =
     Some \<lparr>FileCount = 1, TotalLines = 2, CodeLines = 2, BlankLines = 0, CommentLines = 0\<rparr>"
proof (intro conjI allI impI)
  fix b and v :: scan
  assume "\<not> inLComment v" "index (bytes (StartComment l)) (sp v) = Some b"
    "sp v + 1 = int (length (bytes (StartComment l)))"
  then show "start_matcher l b v =
        Some (v\<lparr>inComment := (if Nesting l \<or> inComment v + 1 \<le> 1
                                then inComment v + 1 else 1), sp := 0\<rparr>)"
    by (rule start_matcher_complete)
qed code_simp+

theorem block_start_depth_witness:
  "\<not> inLComment \<lparr>inComment = 1, inLComment = False, blank = False, lp = 0, sp = 1, ep = 0,
       stats = zero_Stats\<rparr> \<and>
   index (bytes (StartComment cComments)) 1 = Some 42 \<and>
   (1::int) + 1 = int (length (bytes (StartComment cComments))) \<and>
   start_matcher cComments 42 \<lparr>inComment = 1, inLComment = False, blank = False, lp = 0,
       sp = 1, ep = 0, stats = zero_Stats\<rparr> =
     Some \<lparr>inComment = 1, inLComment = False, blank = False, lp = 0, sp = 0, ep = 0,
       stats = zero_Stats\<rparr> \<and>
   start_matcher (cComments\<lparr>Nesting := True\<rparr>) 42 \<lparr>inComment = 1, inLComment = False,
       blank = False, lp = 0, sp = 1, ep = 0, stats = zero_Stats\<rparr> =
     Some \<lparr>inComment = 2, inLComment = False, blank = False, lp = 0, sp = 0, ep = 0,
       stats = zero_Stats\<rparr>"
proof -
  let ?v = "\<lparr>inComment = 1, inLComment = False, blank = False, lp = 0, sp = 1, ep = 0,
       stats = zero_Stats\<rparr>"
  have a: "\<not> inLComment ?v" by simp
  have i: "index (bytes (StartComment cComments)) 1 = Some 42"
    "index (bytes (StartComment (cComments\<lparr>Nesting := True\<rparr>))) 1 = Some 42"
    by code_simp+
  have n: "(1::int) + 1 = int (length (bytes (StartComment cComments)))"
    "(1::int) + 1 = int (length (bytes (StartComment (cComments\<lparr>Nesting := True\<rparr>))))"
    by (simp_all add: cComments_def)
  have f: "\<not> Nesting cComments" "Nesting (cComments\<lparr>Nesting := True\<rparr>)"
    by (simp_all add: cComments_def)
  from block_start_depth [of cComments, THEN conjunct1, rule_format, of ?v 42] a i n f
  have 1: "start_matcher cComments 42 ?v = Some (?v\<lparr>inComment := 1, sp := 0\<rparr>)" by simp
  from block_start_depth [of "cComments\<lparr>Nesting := True\<rparr>", THEN conjunct1, rule_format,
    of ?v 42] a i n f
  have 2: "start_matcher (cComments\<lparr>Nesting := True\<rparr>) 42 ?v =
    Some (?v\<lparr>inComment := 2, sp := 0\<rparr>)" by simp
  from 1 2 a i n show ?thesis by simp
qed

text \<open>
  C9. \<open>Less\<close> puts row \<open>i\<close> before row \<open>j\<close> exactly when row \<open>i\<close> has more code
  lines, or as many and the lexicographically greater name. So in a slice in which no
  later row is less than an earlier one (what \<open>sort.Sort\<close> leaves) the code-line
  counts descend, and among rows of equal count the names descend.
\<close>

theorem Less_code_then_name_descending:
  "(\<forall>i j. 0 \<le> i \<longrightarrow> i < int (length d) \<longrightarrow> 0 \<le> j \<longrightarrow> j < int (length d) \<longrightarrow>
      Less d i j = Some
        (LResult.CodeLines (d ! nat i) > LResult.CodeLines (d ! nat j) \<or>
         LResult.CodeLines (d ! nat i) = LResult.CodeLines (d ! nat j) \<and>
           Name (d ! nat i) > Name (d ! nat j))) \<and>
   ((\<forall>i j. 0 \<le> i \<longrightarrow> i < j \<longrightarrow> j < int (length d) \<longrightarrow> Less d j i = Some False) \<longrightarrow>
    (\<forall>i j. 0 \<le> i \<longrightarrow> i < j \<longrightarrow> j < int (length d) \<longrightarrow>
       LResult.CodeLines (d ! nat i) \<ge> LResult.CodeLines (d ! nat j) \<and>
       (LResult.CodeLines (d ! nat i) = LResult.CodeLines (d ! nat j) \<longrightarrow>
          Name (d ! nat i) \<ge> Name (d ! nat j))))"
proof -
  have char: "Less d i j = Some
        (LResult.CodeLines (d ! nat i) > LResult.CodeLines (d ! nat j) \<or>
         LResult.CodeLines (d ! nat i) = LResult.CodeLines (d ! nat j) \<and>
           Name (d ! nat i) > Name (d ! nat j))"
    if "0 \<le> i" "i < int (length d)" "0 \<le> j" "j < int (length d)" for i j
    using that by (simp add: Less_def)
  have sorted: "LResult.CodeLines (d ! nat i) \<ge> LResult.CodeLines (d ! nat j) \<and>
       (LResult.CodeLines (d ! nat i) = LResult.CodeLines (d ! nat j) \<longrightarrow>
          Name (d ! nat i) \<ge> Name (d ! nat j))"
    if s: "\<forall>i j. 0 \<le> i \<longrightarrow> i < j \<longrightarrow> j < int (length d) \<longrightarrow> Less d j i = Some False"
      and ij: "0 \<le> i" "i < j" "j < int (length d)" for i j
  proof -
    from s ij have "Less d j i = Some False" by blast
    moreover from ij have "0 \<le> j" "i < int (length d)" by simp_all
    ultimately have "\<not> (LResult.CodeLines (d ! nat j) > LResult.CodeLines (d ! nat i) \<or>
         LResult.CodeLines (d ! nat j) = LResult.CodeLines (d ! nat i) \<and>
           Name (d ! nat j) > Name (d ! nat i))"
      using char [of j i] ij by simp
    then show ?thesis by auto
  qed
  from char sorted show ?thesis by blast
qed

theorem Less_code_then_name_descending_witness:
  "Less [\<lparr>Name = ''Total'', FileCount = 3, CodeLines = 25, CommentLines = 0, BlankLines = 0,
           TotalLines = 25\<rparr>,
         \<lparr>Name = ''Go'', FileCount = 1, CodeLines = 10, CommentLines = 0, BlankLines = 0,
           TotalLines = 10\<rparr>,
         \<lparr>Name = ''C'', FileCount = 1, CodeLines = 10, CommentLines = 0, BlankLines = 0,
           TotalLines = 10\<rparr>,
         \<lparr>Name = ''Shell'', FileCount = 1, CodeLines = 5, CommentLines = 0, BlankLines = 0,
           TotalLines = 5\<rparr>] 1 2 = Some True \<and>
   ''Go'' > ''C'' \<and> (0::int) \<le> 1 \<and> (1::int) < 4 \<and> (0::int) \<le> 2 \<and> (2::int) < 4"
proof -
  let ?d = "[\<lparr>Name = ''Total'', FileCount = 3, CodeLines = 25, CommentLines = 0,
           BlankLines = 0, TotalLines = 25\<rparr>,
         \<lparr>Name = ''Go'', FileCount = 1, CodeLines = 10, CommentLines = 0, BlankLines = 0,
           TotalLines = 10\<rparr>,
         \<lparr>Name = ''C'', FileCount = 1, CodeLines = 10, CommentLines = 0, BlankLines = 0,
           TotalLines = 10\<rparr>,
         \<lparr>Name = ''Shell'', FileCount = 1, CodeLines = 5, CommentLines = 0, BlankLines = 0,
           TotalLines = 5\<rparr>]"
  have g: "''Go'' > ''C''" by code_simp
  have "nat 1 = Suc 0" "nat 2 = Suc (Suc 0)" by simp_all
  with Less_code_then_name_descending [of ?d, THEN conjunct1, rule_format, of 1 2] g
  have "Less ?d 1 2 = Some True" by simp
  with g show ?thesis by simp
qed

text \<open>
  C8. The block depth is carried over a newline and not over to the next file. The
  line finalization leaves \<open>inComment\<close> as it is, and so does the whole step on a
  newline byte for markers that hold no newline byte (all of the table). For an input on
  which the depth stays above 0 after every byte (a block comment opened before and
  never closed), every newline adds one comment line and nothing else, to the end of
  the input. Every scan starts with depth 0, and the counts a scan adds do not depend on
  the \<open>Stats\<close> it starts from, in which the earlier files are: after a file that ends
  inside a block comment, a line that was comment there is code in the next file.
\<close>

theorem depth_persists_in_file_only:
  "(\<forall>b v. inComment (finalize b v) = inComment v) \<and>
   (\<forall>v v'. step l 10 v = Some v' \<longrightarrow> 10 \<notin> set (bytes (StartComment l)) \<longrightarrow>
      10 \<notin> set (bytes (EndComment l)) \<longrightarrow> inComment v' = inComment v) \<and>
   (\<forall>v c. cursors_ok l v \<longrightarrow>
      (\<exists>ds v'. depth_trace l c v = Some ds \<and> scan_loop l c v = Some v' \<and>
         ((\<forall>d\<in>set ds. 0 < d) \<longrightarrow>
            CommentLines (stats v') = CommentLines (stats v) + int (count_list c 10) \<and>
            TotalLines (stats v') = TotalLines (stats v) + int (count_list c 10) \<and>
            CodeLines (stats v') = CodeLines (stats v) \<and>
            BlankLines (stats v') = BlankLines (stats v)))) \<and>
   (\<forall>st. inComment (start_scan st) = 0) \<and>
   (\<forall>c st. Update l c st = map_option (add_Stats st) (Update l c zero_Stats)) \<and>
   Update cComments (bytes ''/* open'' @ [10] @ bytes ''x = 1'' @ [10, 10] @ bytes ''more'')
       zero_Stats =
     Some \<lparr>FileCount = 1, TotalLines = 3, CodeLines = 0, BlankLines = 0, CommentLines = 3\<rparr> \<and>
   Update cComments (bytes ''x = 1'' @ [10])
       \<lparr>FileCount = 1, TotalLines = 3, CodeLines = 0, BlankLines = 0, CommentLines = 3\<rparr> =
     Some \<lparr>FileCount = 2, TotalLines = 4, CodeLines = 1, BlankLines = 0, CommentLines = 3\<rparr>"
proof (intro conjI allI impI)
  fix v v' :: scan
  assume "step l 10 v = Some v'" "10 \<notin> set (bytes (StartComment l))"
    "10 \<notin> set (bytes (EndComment l))"
  then show "inComment v' = inComment v" by (rule step_newline_depth)
next
  fix v :: scan and c :: "byte list"
  assume "cursors_ok l v"
  from scan_in_open_block [OF this, of c]
  obtain ds v' where r: "depth_trace l c v = Some ds" "scan_loop l c v = Some v'"
    "(\<forall>d\<in>set ds. 0 < d) \<longrightarrow>
        stats v' = (stats v)\<lparr>TotalLines := TotalLines (stats v) + int (count_list c 10),
          CommentLines := CommentLines (stats v) + int (count_list c 10)\<rparr>"
    by blast
  from r(3) have "(\<forall>d\<in>set ds. 0 < d) \<longrightarrow>
            CommentLines (stats v') = CommentLines (stats v) + int (count_list c 10) \<and>
            TotalLines (stats v') = TotalLines (stats v) + int (count_list c 10) \<and>
            CodeLines (stats v') = CodeLines (stats v) \<and>
            BlankLines (stats v') = BlankLines (stats v)"
    by simp
  with r(1,2)
  show "\<exists>ds v'. depth_trace l c v = Some ds \<and> scan_loop l c v = Some v' \<and>
         ((\<forall>d\<in>set ds. 0 < d) \<longrightarrow>
            CommentLines (stats v') = CommentLines (stats v) + int (count_list c 10) \<and>
            TotalLines (stats v') = TotalLines (stats v) + int (count_list c 10) \<and>
            CodeLines (stats v') = CodeLines (stats v) \<and>
            BlankLines (stats v') = BlankLines (stats v))"
    by blast
next
  fix c st
  show "Update l c st = map_option (add_Stats st) (Update l c zero_Stats)"
    by (rule Update_add_Stats)
next
  fix b and v :: scan
  show "inComment (finalize b v) = inComment v" by simp
next
  fix st
  show "inComment (start_scan st) = 0" by (simp add: start_scan_def)
next
  show "Update cComments (bytes ''/* open'' @ [10] @ bytes ''x = 1'' @ [10, 10] @ bytes ''more'')
       zero_Stats =
     Some \<lparr>FileCount = 1, TotalLines = 3, CodeLines = 0, BlankLines = 0, CommentLines = 3\<rparr>"
    by code_simp
next
  show "Update cComments (bytes ''x = 1'' @ [10])
       \<lparr>FileCount = 1, TotalLines = 3, CodeLines = 0, BlankLines = 0, CommentLines = 3\<rparr> =
     Some \<lparr>FileCount = 2, TotalLines = 4, CodeLines = 1, BlankLines = 0, CommentLines = 3\<rparr>"
    by code_simp
qed

theorem depth_persists_in_file_only_witness:
  "cursors_ok cComments (start_scan zero_Stats) \<and>
   depth_trace cComments (bytes ''/*'' @ [10] @ bytes ''x'' @ [10]) (start_scan zero_Stats) =
     Some [0, 1, 1, 1, 1] \<and>
   cursors_ok cComments \<lparr>inComment = 1, inLComment = False, blank = False, lp = 0, sp = 0,
       ep = 0, stats = zero_Stats\<rparr> \<and>
   depth_trace cComments ([10] @ bytes ''x'' @ [10])
       \<lparr>inComment = 1, inLComment = False, blank = False, lp = 0, sp = 0, ep = 0,
         stats = zero_Stats\<rparr> = Some [1, 1, 1] \<and>
   scan_loop cComments ([10] @ bytes ''x'' @ [10])
       \<lparr>inComment = 1, inLComment = False, blank = False, lp = 0, sp = 0, ep = 0,
         stats = zero_Stats\<rparr> =
     Some \<lparr>inComment = 1, inLComment = False, blank = True, lp = 0, sp = 0, ep = 0,
       stats = \<lparr>FileCount = 0, TotalLines = 2, CodeLines = 0, BlankLines = 0,
         CommentLines = 2\<rparr>\<rparr> \<and>
   count_list ([10] @ bytes ''x'' @ [10]) 10 = 2 \<and>
   10 \<notin> set (bytes (StartComment cComments)) \<and> 10 \<notin> set (bytes (EndComment cComments))"
proof -
  let ?v = "\<lparr>inComment = 1, inLComment = False, blank = False, lp = 0, sp = 0, ep = 0,
         stats = zero_Stats\<rparr>"
  let ?c = "[10] @ bytes ''x'' @ [10]"
  have ok: "cursors_ok cComments (start_scan zero_Stats)" "cursors_ok cComments ?v"
    by (simp_all add: cursors_ok_def cComments_def start_scan_def)
  have d: "depth_trace cComments (bytes ''/*'' @ [10] @ bytes ''x'' @ [10])
      (start_scan zero_Stats) = Some [0, 1, 1, 1, 1]"
    "depth_trace cComments ?c ?v = Some [1, 1, 1]"
    by code_simp+
  have s: "scan_loop cComments ?c ?v =
     Some \<lparr>inComment = 1, inLComment = False, blank = True, lp = 0, sp = 0, ep = 0,
       stats = \<lparr>FileCount = 0, TotalLines = 2, CodeLines = 0, BlankLines = 0,
         CommentLines = 2\<rparr>\<rparr>"
    by code_simp
  have n: "count_list ?c 10 = 2" by (simp add: bytes_def)
  have m: "10 \<notin> set (bytes (StartComment cComments))"
    "10 \<notin> set (bytes (EndComment cComments))"
    by (simp_all add: cComments_def bytes_def)
  from depth_persists_in_file_only [of cComments, THEN conjunct2, THEN conjunct2,
      THEN conjunct1, rule_format, OF ok(2), of ?c] d(2) s n
  have "CommentLines \<lparr>FileCount = 0, TotalLines = 2, CodeLines = 0, BlankLines = 0,
         CommentLines = 2\<rparr> = CommentLines (stats ?v) + 2"
    by simp
  with ok d s n m show ?thesis by simp
qed

text \<open>
  C6, as amended. The absent marker is the one-byte string holding the byte 0. On a byte
  other than 0 a matcher whose marker is absent does not complete (its cursor stays at 0
  and nothing else changes), so on an input without a zero byte it never fires: with an
  absent line marker the scan is never inside a line comment, and with an absent block
  start (the shell-style descriptors) the block depth is 0 after every byte.
\<close>

theorem sentinel_never_matches_without_zero_byte:
  "(\<forall>b v. LineComment l = [CHR 0x00] \<longrightarrow> b \<noteq> 0 \<longrightarrow> lp v = 0 \<longrightarrow>
      line_matcher l b v = Some (v\<lparr>lp := 0\<rparr>)) \<and>
   (\<forall>b v. StartComment l = [CHR 0x00] \<longrightarrow> b \<noteq> 0 \<longrightarrow> sp v = 0 \<longrightarrow>
      start_matcher l b v = Some (v\<lparr>sp := 0\<rparr>)) \<and>
   (\<forall>b v. EndComment l = [CHR 0x00] \<longrightarrow> b \<noteq> 0 \<longrightarrow> ep v = 0 \<longrightarrow>
      end_matcher l b v = Some (v\<lparr>ep := 0\<rparr>)) \<and>
   (\<forall>c st. markers_ok l \<longrightarrow> LineComment l = [CHR 0x00] \<longrightarrow> 0 \<notin> set c \<longrightarrow>
      (\<forall>n \<le> length c. \<exists>w. scan_loop l (take n c) (start_scan st) = Some w \<and>
         \<not> inLComment w \<and> lp w = 0)) \<and>
   (\<forall>c st. markers_ok l \<longrightarrow> StartComment l = [CHR 0x00] \<longrightarrow> 0 \<notin> set c \<longrightarrow>
      depth_trace l c (start_scan st) = Some (replicate (length c) 0))"
proof (intro conjI allI impI)
  fix b :: byte and v :: scan
  assume "LineComment l = [CHR 0x00]" "b \<noteq> 0" "lp v = 0"
  then show "line_matcher l b v = Some (v\<lparr>lp := 0\<rparr>)" by (rule line_matcher_sentinel)
next
  fix b :: byte and v :: scan
  assume "StartComment l = [CHR 0x00]" "b \<noteq> 0" "sp v = 0"
  then show "start_matcher l b v = Some (v\<lparr>sp := 0\<rparr>)" by (rule start_matcher_sentinel)
next
  fix b :: byte and v :: scan
  assume "EndComment l = [CHR 0x00]" "b \<noteq> 0" "ep v = 0"
  then show "end_matcher l b v = Some (v\<lparr>ep := 0\<rparr>)" by (rule end_matcher_sentinel)
next
  fix c :: "byte list" and st n
  assume a: "markers_ok l" "LineComment l = [CHR 0x00]" "0 \<notin> set c"
  from a(3) have "0 \<notin> set (take n c)" by (auto dest: in_set_takeD)
  from scan_line_sentinel [OF a(2) start_scan_ok [OF a(1)] this, of st]
  show "\<exists>w. scan_loop l (take n c) (start_scan st) = Some w \<and> \<not> inLComment w \<and> lp w = 0"
    by (simp add: start_scan_def)
next
  fix c :: "byte list" and st
  assume a: "markers_ok l" "StartComment l = [CHR 0x00]" "0 \<notin> set c"
  from scan_start_sentinel [OF a(2) start_scan_ok [OF a(1)] a(3), of st]
  show "depth_trace l c (start_scan st) = Some (replicate (length c) 0)"
    by (simp add: start_scan_def)
qed

theorem sentinel_never_matches_without_zero_byte_witness:
  "markers_ok shComments \<and> StartComment shComments = [CHR 0x00] \<and>
   0 \<notin> set (bytes ''ls # x'' @ [10]) \<and>
   depth_trace shComments (bytes ''ls # x'' @ [10]) (start_scan zero_Stats) =
     Some [0, 0, 0, 0, 0, 0, 0] \<and>
   replicate (length (bytes ''ls # x'' @ [10])) (0::int) = [0, 0, 0, 0, 0, 0, 0] \<and>
   (108::byte) \<noteq> 0 \<and>
   start_matcher shComments 108 (start_scan zero_Stats) = Some (start_scan zero_Stats)"
proof -
  have m: "markers_ok shComments" by (simp add: markers_ok_def shComments_def)
  have s: "StartComment shComments = [CHR 0x00]" by (simp add: shComments_def)
  have z: "0 \<notin> set (bytes ''ls # x'' @ [10])" by (simp add: bytes_def)
  have r: "replicate (length (bytes ''ls # x'' @ [10])) (0::int) = [0, 0, 0, 0, 0, 0, 0]"
    by (simp add: bytes_def numeral_eq_Suc)
  have e: "start_matcher shComments 108 (start_scan zero_Stats) = Some (start_scan zero_Stats)"
    by code_simp
  from sentinel_never_matches_without_zero_byte [of shComments, THEN conjunct2, THEN conjunct2,
    THEN conjunct2, THEN conjunct2, rule_format, OF m s z, of zero_Stats] r
  have "depth_trace shComments (bytes ''ls # x'' @ [10]) (start_scan zero_Stats) =
     Some [0, 0, 0, 0, 0, 0, 0]" by simp
  with m s z r e show ?thesis by simp
qed

text \<open>
  C6 as it is written fails on a zero byte, which the absent marker matches. For the
  descriptor without comments the line \<open>x\<close>, byte 0, is a comment line: the absent line
  marker has fired. For the CSS descriptor, whose line marker is absent, the same line is
  comment where the line \<open>x\<close> is code. For the shell descriptor the zero byte completes
  the absent block start, which takes the depth to 1, and the absent block end, which
  takes it back to 0.
\<close>

theorem sentinel_matches_zero_byte_counterexample:
  "line_matcher noComments 0 (start_scan zero_Stats) =
     Some ((start_scan zero_Stats)\<lparr>inLComment := True\<rparr>) \<and>
   Update noComments [120, 0, 10] zero_Stats =
     Some \<lparr>FileCount = 1, TotalLines = 1, CodeLines = 0, BlankLines = 0, CommentLines = 1\<rparr> \<and>
   Update cssComments [120, 0, 10] zero_Stats =
     Some \<lparr>FileCount = 1, TotalLines = 1, CodeLines = 0, BlankLines = 0, CommentLines = 1\<rparr> \<and>
   Update cssComments [120, 10] zero_Stats =
     Some \<lparr>FileCount = 1, TotalLines = 1, CodeLines = 1, BlankLines = 0, CommentLines = 0\<rparr> \<and>
   start_matcher shComments 0 (start_scan zero_Stats) =
     Some ((start_scan zero_Stats)\<lparr>inComment := 1\<rparr>) \<and>
   end_matcher shComments 0 ((start_scan zero_Stats)\<lparr>inComment := 1\<rparr>) =
     Some (start_scan zero_Stats)"
  by code_simp

end
